theory Spec2Isabelle
  imports Complex_Main "HOL-Library.Sublist"
begin

section \<open>Python values\<close>

text \<open>
  What \<^verbatim>\<open>response.json()\<close> returns. Python's \<^verbatim>\<open>None\<close> is \<open>JNull\<close>: the JSON
  literal \<^verbatim>\<open>null\<close> parses to it, and \<^verbatim>\<open>_api_call\<close> returns it on failure. Numbers are
  rationals (an int or a finite float; both are falsy exactly at zero). A dict is an
  association list in insertion order, read with \<open>map_of\<close>; a parsed object has distinct
  keys. The characters of a \<open>string\<close> stand for Python's code points; every key the code
  names is ASCII.
\<close>

datatype json =
    JNull
  | JBool bool
  | JNum rat
  | JStr string
  | JArr "json list"
  | JObj "(string \<times> json) list"

text \<open>
  The exceptions of the program and of its libraries. \<open>HTTPError\<close> (with the response's
  status), \<open>ConnectionError\<close>, \<open>Timeout\<close>, \<open>JSONDecodeError\<close> and \<open>RequestException\<close>
  (any other of its subclasses) are the classes of \<^verbatim>\<open>requests.exceptions\<close>;
  \<open>TimeoutError\<close> is the builtin (the source imports \<^verbatim>\<open>Timeout\<close> and \<^verbatim>\<open>ConnectionError\<close>
  from requests, and names the builtin \<^verbatim>\<open>TimeoutError\<close>); \<open>RetryError\<close> is tenacity's,
  wrapping the exception of the last attempt.
\<close>

datatype exn =
    HTTPError nat
  | ConnectionError
  | Timeout
  | JSONDecodeError
  | RequestException
  | TimeoutError
  | ValueError string
  | IndexError
  | KeyError string
  | TypeError
  | AttributeError
  | RetryError exn
  | OtherException string

text \<open>
  \<^verbatim>\<open>isinstance(e, RequestException)\<close>: \<^verbatim>\<open>HTTPError\<close>, \<^verbatim>\<open>ConnectionError\<close>, \<^verbatim>\<open>Timeout\<close> and
  \<^verbatim>\<open>JSONDecodeError\<close> (through \<^verbatim>\<open>InvalidJSONError\<close>, requests 2.27 and later) derive from
  \<^verbatim>\<open>RequestException\<close>.
\<close>

fun is_RequestException :: "exn \<Rightarrow> bool" where
  "is_RequestException (HTTPError _) = True"
| "is_RequestException ConnectionError = True"
| "is_RequestException Timeout = True"
| "is_RequestException JSONDecodeError = True"
| "is_RequestException RequestException = True"
| "is_RequestException _ = False"

text \<open>
  \<^verbatim>\<open>isinstance(e, ValueError)\<close>: requests' \<^verbatim>\<open>JSONDecodeError\<close> also derives from
  \<^verbatim>\<open>json.JSONDecodeError\<close>, a \<^verbatim>\<open>ValueError\<close>.
\<close>

fun is_ValueError :: "exn \<Rightarrow> bool" where
  "is_ValueError (ValueError _) = True"
| "is_ValueError JSONDecodeError = True"
| "is_ValueError _ = False"

text \<open>\<^verbatim>\<open>not v\<close> is \<open>\<not> truthy v\<close>.\<close>

fun truthy :: "json \<Rightarrow> bool" where
  "truthy JNull = False"
| "truthy (JBool b) = b"
| "truthy (JNum x) = (x \<noteq> 0)"
| "truthy (JStr s) = (s \<noteq> [])"
| "truthy (JArr xs) = (xs \<noteq> [])"
| "truthy (JObj kvs) = (kvs \<noteq> [])"

text \<open>\<^verbatim>\<open>v[k]\<close> for a string key: a dict looks the key up; nothing else takes a string index.\<close>

fun py_getitem :: "json \<Rightarrow> string \<Rightarrow> exn + json" where
  "py_getitem (JObj kvs) k =
     (case map_of kvs k of Some x \<Rightarrow> Inr x | None \<Rightarrow> Inl (KeyError k))"
| "py_getitem _ k = Inl TypeError"

text \<open>
  \<^verbatim>\<open>k in v\<close> for a string \<open>k\<close>: a key of a dict, an element of a list, a substring of a
  string; the other values are not iterable.
\<close>

fun py_contains :: "string \<Rightarrow> json \<Rightarrow> exn + bool" where
  "py_contains k (JObj kvs) = Inr (k \<in> set (map fst kvs))"
| "py_contains k (JArr xs) = Inr (JStr k \<in> set xs)"
| "py_contains k (JStr s) = Inr (sublist k s)"
| "py_contains k _ = Inl TypeError"

text \<open>
  \<^verbatim>\<open>products.extend(v)\<close>: the elements of a list, the keys of a dict, the characters of a
  string; the other values are not iterable.
\<close>

fun py_extend :: "json list \<Rightarrow> json \<Rightarrow> exn + json list" where
  "py_extend products (JArr xs) = Inr (products @ xs)"
| "py_extend products (JObj kvs) = Inr (products @ map (\<lambda>kv. JStr (fst kv)) kvs)"
| "py_extend products (JStr s) = Inr (products @ map (\<lambda>c. JStr [c]) s)"
| "py_extend products _ = Inl TypeError"

section \<open>The network and the observable effects\<close>

text \<open>
  What one \<^verbatim>\<open>session.get\<close> does: it raises, or it returns a response with a status and a
  body that parses as JSON or does not.
\<close>

datatype body = Parsed json | Unparsable

datatype reply = Raises exn | Response nat body

text \<open>
  The environment of a run: \<open>net k url params\<close> is the reply to the request number \<open>k\<close>
  (counted from 0 over the whole run), \<open>rand k\<close> the number \<^verbatim>\<open>random.choice\<close> draws for it.
\<close>

record env =
  net :: "nat \<Rightarrow> json \<Rightarrow> (string \<times> json) list option \<Rightarrow> reply"
  rand :: "nat \<Rightarrow> nat"

datatype log_entry =
    Attempt nat json
  | HTTP_Error nat
  | Invalid_JSON
  | Unexpected exn
  | Failed_loading json
  | Loading_complete nat

text \<open>
  The effects of a run: the number of requests sent, the delays slept between attempts
  and the lines logged, each in order.
\<close>

record world =
  requests :: nat
  slept :: "int list"
  logged :: "log_entry list"

section \<open>SessionManager, APIClient, PrixNcExctractService\<close>

text \<open>
  The three classes, each extending the one before. A session is represented by the
  number of times it was closed.
\<close>

record SessionManager =
  sessions :: "nat list"

record APIClient = SessionManager +
  timeout :: int
  max_retry :: int
  min_retry_time :: int
  max_retry_time :: int
  retry_time_multiplier :: int
  session :: "nat option"

record PrixNcExctractService = APIClient +
  current_page_url :: json

definition SessionManager_init :: "int \<Rightarrow> SessionManager" where
  "SessionManager_init nb_session = \<lparr>sessions = replicate (nat nb_session) 0\<rparr>"

definition close_sessions :: "'a SessionManager_scheme \<Rightarrow> 'a SessionManager_scheme" where
  "close_sessions self = self\<lparr>sessions := map Suc (sessions self)\<rparr>"

text \<open>\<^verbatim>\<open>random.choice\<close> raises \<^verbatim>\<open>IndexError\<close> on an empty list.\<close>

definition get_session :: "env \<Rightarrow> 'a SessionManager_scheme \<Rightarrow> world \<Rightarrow> exn + nat" where
  "get_session e self w =
     (if sessions self = [] then Inl IndexError
      else Inr (rand e (requests w) mod length (sessions self)))"

definition APIClient_init :: "int \<Rightarrow> int \<Rightarrow> int \<Rightarrow> int \<Rightarrow> int \<Rightarrow> exn + APIClient" where
  "APIClient_init t mr mn mx mult =
     (if t \<le> 0 then Inl (ValueError ''Timeout must be positive'')
      else Inr \<lparr>sessions = sessions (SessionManager_init 3),
                timeout = t, max_retry = mr, min_retry_time = mn,
                max_retry_time = mx, retry_time_multiplier = mult,
                session = None\<rparr>)"

section \<open>tenacity\<close>

text \<open>
  The \<^verbatim>\<open>Retrying\<close> object \<^verbatim>\<open>_api_call\<close> builds: \<^verbatim>\<open>stop_after_attempt(max_retry)\<close>,
  \<^verbatim>\<open>wait_exponential(multiplier, min, max)\<close> and
  \<^verbatim>\<open>retry_if_exception_type((RequestException, ConnectionError, TimeoutError))\<close>.
\<close>

record Retrying =
  max_attempt_number :: int
  multiplier :: int
  wait_min :: int
  wait_max :: int

text \<open>tenacity: \<^verbatim>\<open>retry_state.attempt_number >= self.max_attempt_number\<close>.\<close>

definition stop_after_attempt :: "Retrying \<Rightarrow> nat \<Rightarrow> bool" where
  "stop_after_attempt rc attempt_number = (max_attempt_number rc \<le> int attempt_number)"

text \<open>
  tenacity (with its default \<^verbatim>\<open>exp_base=2\<close>):
  \<^verbatim>\<open>max(max(0, self.min), min(self.multiplier * 2 ** (attempt_number - 1), self.max))\<close>.
  Attempt numbers start at 1. tenacity keeps \<^verbatim>\<open>min\<close> and \<^verbatim>\<open>max\<close> as floats, so the number
  below is the program's while both are integers a float holds exactly.
\<close>

definition wait_exponential :: "Retrying \<Rightarrow> nat \<Rightarrow> int" where
  "wait_exponential rc attempt_number =
     max (max 0 (wait_min rc)) (min (multiplier rc * 2 ^ (attempt_number - 1)) (wait_max rc))"

text \<open>
  A bound, in seconds, under which the delays of the model are the delays of the
  program: \<^verbatim>\<open>float(min)\<close> and \<^verbatim>\<open>float(max)\<close> are exact up to \<open>2 ^ 53\<close>, and
  \<^verbatim>\<open>time.sleep\<close> raises \<^verbatim>\<open>OverflowError\<close> on a delay its timer cannot hold; the bound is
  what a timer of \<open>2 ^ 32 - 1\<close> milliseconds holds, below both.
\<close>

definition sleep_limit :: int where
  "sleep_limit = 4294967"

definition retry_if_exception_type :: "exn \<Rightarrow> bool" where
  "retry_if_exception_type e = (is_RequestException e \<or> e = ConnectionError \<or> e = TimeoutError)"

section \<open>APIClient._api_call\<close>

type_synonym 'a state = "'a APIClient_scheme \<times> world"

text \<open>
  The body of \<^verbatim>\<open>with attempt:\<close>. \<^verbatim>\<open>raise_for_status\<close> raises \<^verbatim>\<open>HTTPError\<close> for a status
  from 400 to 599; \<^verbatim>\<open>response.json()\<close> raises requests' \<^verbatim>\<open>JSONDecodeError\<close> on a body
  that does not parse.
\<close>

definition attempt ::
  "env \<Rightarrow> json \<Rightarrow> (string \<times> json) list option \<Rightarrow> nat \<Rightarrow> 'a state \<Rightarrow> (exn + json) \<times> 'a state" where
  "attempt e api_url params attempt_number st =
     (case st of (self, w) \<Rightarrow>
        (case get_session e self w of
           Inl x \<Rightarrow> (Inl x, (self, w))
         | Inr i \<Rightarrow>
             (let self1 = self\<lparr>session := Some i\<rparr>;
                  w1 = w\<lparr>logged := logged w @ [Attempt attempt_number api_url]\<rparr>;
                  w2 = w1\<lparr>requests := Suc (requests w1)\<rparr>
              in case net e (requests w1) api_url params of
                   Raises x \<Rightarrow> (Inl x, (self1, w2))
                 | Response status b \<Rightarrow>
                     if 400 \<le> status \<and> status < 600 then (Inl (HTTPError status), (self1, w2))
                     else (case b of
                             Parsed j \<Rightarrow> (Inr j, (self1, w2))
                           | Unparsable \<Rightarrow> (Inl JSONDecodeError, (self1, w2))))))"

definition sleep :: "int \<Rightarrow> 'a state \<Rightarrow> 'a state" where
  "sleep d st = (case st of (self, w) \<Rightarrow> (self, w\<lparr>slept := slept w @ [d]\<rparr>))"

text \<open>
  \<^verbatim>\<open>for attempt in retry_configuration\<close>: an exception the retry predicate rejects
  leaves the loop as it is; one it accepts is wrapped in \<^verbatim>\<open>RetryError\<close> once the stop
  condition holds, and otherwise the loop sleeps and runs the body again.
\<close>

function attempts ::
  "env \<Rightarrow> json \<Rightarrow> (string \<times> json) list option \<Rightarrow> Retrying \<Rightarrow> nat \<Rightarrow> 'a state
     \<Rightarrow> (exn + json) \<times> 'a state" where
  "attempts e api_url params rc n st =
     (case attempt e api_url params n st of
        (Inr j, st1) \<Rightarrow> (Inr j, st1)
      | (Inl x, st1) \<Rightarrow>
          if \<not> retry_if_exception_type x then (Inl x, st1)
          else if stop_after_attempt rc n then (Inl (RetryError x), st1)
          else attempts e api_url params rc (Suc n) (sleep (wait_exponential rc n) st1))"
  by pat_completeness auto
termination
  by (relation "measure (\<lambda>(e, api_url, params, rc, n, st). nat (max_attempt_number rc - int n))")
     (auto simp: stop_after_attempt_def)

declare attempts.simps [simp del]

text \<open>The three \<^verbatim>\<open>except\<close> clauses, in the source's order; each logs one line.\<close>

definition handler :: "exn \<Rightarrow> log_entry" where
  "handler x =
     (case x of
        HTTPError status \<Rightarrow> HTTP_Error status
      | _ \<Rightarrow> if is_ValueError x then Invalid_JSON else Unexpected x)"

definition retry_configuration :: "'a APIClient_scheme \<Rightarrow> Retrying" where
  "retry_configuration self =
     \<lparr>max_attempt_number = max_retry self,
      multiplier = retry_time_multiplier self,
      wait_min = min_retry_time self,
      wait_max = max_retry_time self\<rparr>"

text \<open>
  \<^verbatim>\<open>_api_call\<close>: the JSON of the first attempt that succeeds, or \<^verbatim>\<open>None\<close> after the
  handler of the exception that left the loop has logged it.
\<close>

definition api_call ::
  "env \<Rightarrow> json \<Rightarrow> (string \<times> json) list option \<Rightarrow> 'a state \<Rightarrow> json \<times> 'a state" where
  "api_call e api_url params st =
     (case attempts e api_url params (retry_configuration (fst st)) 1 st of
        (Inr j, st1) \<Rightarrow> (j, st1)
      | (Inl x, (self1, w1)) \<Rightarrow> (JNull, (self1, w1\<lparr>logged := logged w1 @ [handler x]\<rparr>)))"

section \<open>PrixNcExctractService\<close>

text \<open>\<^verbatim>\<open>str(n)\<close> for an int, as the f-string of the first page's URL formats it.\<close>

function str_nat :: "nat \<Rightarrow> string" where
  "str_nat n =
     (if n < 10 then [''0123456789'' ! n]
      else str_nat (n div 10) @ [''0123456789'' ! (n mod 10)])"
  by pat_completeness auto
termination
  by (relation "measure id") auto

declare str_nat.simps [simp del]

definition str_int :: "int \<Rightarrow> string" where
  "str_int i = (if i < 0 then CHR ''-'' # str_nat (nat (- i)) else str_nat (nat i))"

definition nc_api :: string where
  "nc_api = ''https://prix.nc/api/v1/produits/''"

definition init_page :: int where
  "init_page = 0"

text \<open>
  The service is built with the defaults of \<^verbatim>\<open>APIClient.__init__\<close>: timeout 5, 3 attempts,
  delays from 2 to 10, multiplier 1.
\<close>

definition PrixNcExctractService_init :: "int \<Rightarrow> exn + PrixNcExctractService" where
  "PrixNcExctractService_init bash_size =
     (let url = nc_api @ ''?page='' @ str_int init_page @ ''&size='' @ str_int bash_size
      in case APIClient_init 5 3 2 10 1 of
           Inl x \<Rightarrow> Inl x
         | Inr c \<Rightarrow>
             Inr \<lparr>sessions = sessions c,
                  timeout = timeout c, max_retry = max_retry c,
                  min_retry_time = min_retry_time c, max_retry_time = max_retry_time c,
                  retry_time_multiplier = retry_time_multiplier c, session = session c,
                  current_page_url = JStr url\<rparr>)"

type_synonym 'a run = "'a PrixNcExctractService_scheme \<times> world"

text \<open>
  \<^verbatim>\<open>load_data\<close>: the \<^verbatim>\<open>while True\<close> loop, with \<open>products\<close> the list accumulated so far.
  The loop ends with \<open>Inr None\<close> (the \<^verbatim>\<open>return None\<close> of a failed page), with
  \<open>Inr (Some products)\<close> (the \<^verbatim>\<open>break\<close> of the last page), or with \<open>Inl\<close> an exception
  that nothing catches; it runs forever when every page names a next one, and then the
  value is \<open>None\<close>.
\<close>

partial_function (option) load_loop ::
  "env \<Rightarrow> json list \<Rightarrow> 'a run \<Rightarrow> ((exn + json list option) \<times> 'a run) option" where
  "load_loop e products st =
     (case api_call e (current_page_url (fst st)) None st of
        (json_response, (self1, w1)) \<Rightarrow>
          if \<not> truthy json_response then
            Some (Inr None,
                  (self1, w1\<lparr>logged := logged w1 @ [Failed_loading (current_page_url self1)]\<rparr>))
          else
            (case py_getitem json_response ''_embedded'' of
               Inl x \<Rightarrow> Some (Inl x, (self1, w1))
             | Inr embedded \<Rightarrow>
            (case py_getitem embedded ''produits'' of
               Inl x \<Rightarrow> Some (Inl x, (self1, w1))
             | Inr produits \<Rightarrow>
            (case py_extend products produits of
               Inl x \<Rightarrow> Some (Inl x, (self1, w1))
             | Inr products1 \<Rightarrow>
            (case py_getitem json_response ''_links'' of
               Inl x \<Rightarrow> Some (Inl x, (self1, w1))
             | Inr links \<Rightarrow>
            (case py_contains ''next'' links of
               Inl x \<Rightarrow> Some (Inl x, (self1, w1))
             | Inr has_next \<Rightarrow>
                 if has_next then
                   (case py_getitem links ''next'' of
                      Inl x \<Rightarrow> Some (Inl x, (self1, w1))
                    | Inr nxt \<Rightarrow>
                   (case py_getitem nxt ''href'' of
                      Inl x \<Rightarrow> Some (Inl x, (self1, w1))
                    | Inr href \<Rightarrow>
                        load_loop e products1 (self1\<lparr>current_page_url := href\<rparr>, w1)))
                 else
                   Some (Inr (Some products1),
                         (close_sessions self1,
                          w1\<lparr>logged := logged w1 @ [Loading_complete (length products1)]\<rparr>))))))))"

definition load_data :: "env \<Rightarrow> 'a run \<Rightarrow> ((exn + json list option) \<times> 'a run) option" where
  "load_data e st = load_loop e [] st"

text \<open>
  \<^verbatim>\<open>cleaning_data\<close>: the comprehension calls \<^verbatim>\<open>product.items()\<close>, which only a dict
  has, and keeps every item whose key is not \<^verbatim>\<open>"_links"\<close>, in the dict's order.
\<close>

fun cleaning_data :: "json list \<Rightarrow> exn + json list" where
  "cleaning_data [] = Inr []"
| "cleaning_data (product # products) =
     (case product of
        JObj kvs \<Rightarrow>
          (case cleaning_data products of
             Inl x \<Rightarrow> Inl x
           | Inr rest \<Rightarrow> Inr (JObj (filter (\<lambda>(k, v). k \<noteq> ''_links'') kvs) # rest))
      | _ \<Rightarrow> Inl AttributeError)"

section \<open>Pages and backoff as the specification describes them\<close>

text \<open>
  The response envelope of the API:
  \<^verbatim>\<open>{"_embedded": {"produits": [...]}, "_links": {"next": {"href": url}, ...}}\<close>, the
  \<^verbatim>\<open>next\<close> relation being absent on the last page. \<open>page_view j\<close> is the record list of
  such an envelope and the URL of its next page, if it names one.
\<close>

fun page_view :: "json \<Rightarrow> (json list \<times> json option) option" where
  "page_view (JObj kvs) =
     (case (map_of kvs ''_embedded'', map_of kvs ''_links'') of
        (Some (JObj emb), Some (JObj lks)) \<Rightarrow>
          (case map_of emb ''produits'' of
             Some (JArr recs) \<Rightarrow>
               (case map_of lks ''next'' of
                  None \<Rightarrow> Some (recs, None)
                | Some (JObj nx) \<Rightarrow>
                    (case map_of nx ''href'' of Some u \<Rightarrow> Some (recs, Some u) | None \<Rightarrow> None)
                | Some _ \<Rightarrow> None)
           | _ \<Rightarrow> None)
      | _ \<Rightarrow> None)"
| "page_view _ = None"

text \<open>
  \<open>follow_pages e st pages\<close>: from the state \<open>st\<close>, the fetches of the current page and of
  the pages it links to return, in this order, envelopes holding the record lists
  \<open>pages\<close>, each naming a next page; the result is the state in which the loop then
  fetches the page after them.
\<close>

fun follow_pages :: "env \<Rightarrow> 'a run \<Rightarrow> json list list \<Rightarrow> 'a run option" where
  "follow_pages e st [] = Some st"
| "follow_pages e st (recs # rest) =
     (case api_call e (current_page_url (fst st)) None st of
        (j, (self1, w1)) \<Rightarrow>
          (case page_view j of
             Some (recs1, Some u) \<Rightarrow>
               if recs1 = recs then follow_pages e (self1\<lparr>current_page_url := u\<rparr>, w1) rest
               else None
           | _ \<Rightarrow> None))"

text \<open>A dict that lacks the key \<open>k\<close>.\<close>

fun missing_key :: "json \<Rightarrow> string \<Rightarrow> bool" where
  "missing_key (JObj kvs) k = (map_of kvs k = None)"
| "missing_key _ k = False"

text \<open>
  The delay before attempt \<open>n + 1\<close> in the specification's words:
  \<^verbatim>\<open>clamp(min_delay * (multiplier ^ n), min_delay, max_delay)\<close>.
\<close>

definition spec_delay :: "int \<Rightarrow> int \<Rightarrow> int \<Rightarrow> nat \<Rightarrow> int" where
  "spec_delay min_delay max_delay mult n = max min_delay (min (min_delay * mult ^ n) max_delay)"

section \<open>Example runs\<close>

definition fresh :: world where
  "fresh = \<lparr>requests = 0, slept = [], logged = []\<rparr>"

text \<open>\<^verbatim>\<open>APIClient()\<close> and \<^verbatim>\<open>PrixNcExctractService(bash_size=1000)\<close>, as the main program builds it.\<close>

definition default_client :: APIClient where
  "default_client =
     \<lparr>sessions = [0, 0, 0], timeout = 5, max_retry = 3, min_retry_time = 2,
      max_retry_time = 10, retry_time_multiplier = 1, session = None\<rparr>"

definition first_url :: string where
  "first_url = ''https://prix.nc/api/v1/produits/?page=0&size=1000''"

definition second_url :: string where
  "second_url = ''https://prix.nc/api/v1/produits/?page=1&size=1000''"

definition default_service :: PrixNcExctractService where
  "default_service =
     \<lparr>sessions = [0, 0, 0], timeout = 5, max_retry = 3, min_retry_time = 2,
      max_retry_time = 10, retry_time_multiplier = 1, session = None,
      current_page_url = JStr first_url\<rparr>"

text \<open>A network that gives the same reply to every request.\<close>

definition always :: "reply \<Rightarrow> env" where
  "always r = \<lparr>net = (\<lambda>k url params. r), rand = (\<lambda>k. k)\<rparr>"

definition sample_product :: "int \<Rightarrow> json" where
  "sample_product i =
     JObj [(''id'', JNum (of_int i)),
           (''_links'', JObj [(''self'', JObj [(''href'', JStr ''https://prix.nc/api/v1/produits/1'')])])]"

definition page :: "json list \<Rightarrow> string option \<Rightarrow> json" where
  "page recs nxt =
     JObj [(''_embedded'', JObj [(''produits'', JArr recs)]),
           (''_links'',
            JObj ((''self'', JObj [(''href'', JStr first_url)]) #
                  (case nxt of
                     None \<Rightarrow> []
                   | Some u \<Rightarrow> [(''next'', JObj [(''href'', JStr u)])])))]"

text \<open>Two pages of two records; the second has no next link.\<close>

definition two_pages :: env where
  "two_pages =
     \<lparr>net = (\<lambda>k url params.
         if url = JStr second_url then Response 200 (Parsed (page [sample_product 3, sample_product 4] None))
         else Response 200 (Parsed (page [sample_product 1, sample_product 2] (Some second_url)))),
      rand = (\<lambda>k. k)\<rparr>"

text \<open>The first request is answered with a page that links to a second one; every later request fails to connect.\<close>

definition page_then_down :: env where
  "page_then_down =
     \<lparr>net = (\<lambda>k url params.
         if k = 0 then Response 200 (Parsed (page [sample_product 1, sample_product 2] (Some second_url)))
         else Raises ConnectionError),
      rand = (\<lambda>k. k)\<rparr>"

section \<open>Construction of the client\<close>

text \<open>
  Claim C9. \<^verbatim>\<open>APIClient.__init__\<close> succeeds for every configuration with a positive
  timeout, storing the configuration beside a pool of three sessions; for a timeout that
  is zero or negative it raises \<^verbatim>\<open>ValueError("Timeout must be positive")\<close>, the
  invalid-configuration error, and it raises nothing else. (\<open>api_call\<close> has no exception
  among its results: its three handlers catch whatever the attempts raise.)
\<close>

theorem APIClient_init_timeout:
  "(0 < t \<longrightarrow>
      (\<exists>c. APIClient_init t mr mn mx mult = Inr c \<and> timeout c = t \<and> max_retry c = mr \<and>
           min_retry_time c = mn \<and> max_retry_time c = mx \<and> retry_time_multiplier c = mult \<and>
           sessions c = [0, 0, 0])) \<and>
   (t \<le> 0 \<longrightarrow> APIClient_init t mr mn mx mult = Inl (ValueError ''Timeout must be positive'')) \<and>
   (\<forall>x. APIClient_init t mr mn mx mult = Inl x \<longrightarrow> x = ValueError ''Timeout must be positive'')"
  by (simp add: APIClient_init_def SessionManager_init_def numeral_3_eq_3)

theorem APIClient_init_timeout_witness:
  "(\<exists>c. APIClient_init 5 3 2 10 1 = Inr c \<and> timeout c = 5 \<and> sessions c = [0, 0, 0]) \<and>
   APIClient_init 0 3 2 10 1 = Inl (ValueError ''Timeout must be positive'') \<and>
   APIClient_init (- 1) 3 2 10 1 = Inl (ValueError ''Timeout must be positive'')"
proof -
  have "(0::int) < 5" "(0::int) \<le> 0" "(- 1::int) \<le> 0" by simp_all
  with APIClient_init_timeout [of 5 3 2 10 1] APIClient_init_timeout [of 0 3 2 10 1]
    APIClient_init_timeout [of "- 1" 3 2 10 1]
  show ?thesis by blast
qed

lemma default_client_init: "APIClient_init 5 3 2 10 1 = Inr default_client"
  by (simp add: APIClient_init_def SessionManager_init_def default_client_def numeral_3_eq_3)

lemma default_service_init: "PrixNcExctractService_init 1000 = Inr default_service"
  by code_simp

section \<open>The record cleaner\<close>

lemma map_of_drop_key:
  "map_of (filter (\<lambda>(k, v). k \<noteq> a) kvs) = (map_of kvs)(a := None)"
  by (induction kvs) (auto simp: fun_eq_iff)

lemma keys_drop_key:
  "map fst (filter (\<lambda>(k, v). k \<noteq> a) kvs) = filter (\<lambda>k. k \<noteq> a) (map fst kvs)"
  by (induction kvs) auto

lemma drop_absent_key:
  "a \<notin> fst ` set kvs \<Longrightarrow> filter (\<lambda>(k, v). k \<noteq> a) kvs = kvs"
  by (induction kvs) auto

lemma cleaning_data_dicts:
  "cleaning_data (map JObj records) =
     Inr (map JObj (map (filter (\<lambda>(k, v). k \<noteq> ''_links'')) records))"
  by (induction records) simp_all

text \<open>
  Claim C7. For every list of raw records (dicts), \<^verbatim>\<open>cleaning_data\<close> raises nothing and
  returns as many dicts, in the same order. The dict at each position has the fields of
  the input dict at that position without the key \<^verbatim>\<open>"_links"\<close>: the same values under
  every other key, the remaining keys in their order; a record without the key comes
  back unchanged.
\<close>

theorem cleaning_data_fields:
  "\<exists>out. cleaning_data (map JObj records) = Inr (map JObj out) \<and>
     length out = length records \<and>
     (\<forall>i < length records.
        map_of (out ! i) = (map_of (records ! i))(''_links'' := None) \<and>
        map fst (out ! i) = filter (\<lambda>k. k \<noteq> ''_links'') (map fst (records ! i)) \<and>
        (''_links'' \<notin> fst ` set (records ! i) \<longrightarrow> out ! i = records ! i))"
proof (intro exI conjI allI impI)
  show "cleaning_data (map JObj records) =
      Inr (map JObj (map (filter (\<lambda>(k, v). k \<noteq> ''_links'')) records))"
    by (rule cleaning_data_dicts)
  show "length (map (filter (\<lambda>(k, v). k \<noteq> ''_links'')) records) = length records"
    by simp
next
  fix i assume "i < length records"
  then show "map_of (map (filter (\<lambda>(k, v). k \<noteq> ''_links'')) records ! i) =
      (map_of (records ! i))(''_links'' := None)"
    by (simp add: map_of_drop_key)
next
  fix i assume "i < length records"
  then show "map fst (map (filter (\<lambda>(k, v). k \<noteq> ''_links'')) records ! i) =
      filter (\<lambda>k. k \<noteq> ''_links'') (map fst (records ! i))"
    by (simp add: keys_drop_key)
next
  fix i assume "i < length records" "''_links'' \<notin> fst ` set (records ! i)"
  then show "map (filter (\<lambda>(k, v). k \<noteq> ''_links'')) records ! i = records ! i"
    by (simp add: drop_absent_key)
qed

theorem cleaning_data_fields_witness:
  "cleaning_data [JObj [(''_links'', JObj [(''self'', JStr ''u'')]), (''id'', JNum 1)],
                  JObj [(''id'', JNum 2)]] =
     Inr [JObj [(''id'', JNum 1)], JObj [(''id'', JNum 2)]]"
proof -
  let ?r0 = "[(''_links'', JObj [(''self'', JStr ''u'')]), (''id'', JNum 1)]"
  let ?r1 = "[(''id'', JNum 2)]"
  from cleaning_data_fields [of "[?r0, ?r1]"] obtain out where
    c: "cleaning_data (map JObj [?r0, ?r1]) = Inr (map JObj out)" and
    l: "length out = length [?r0, ?r1]" and
    f: "\<forall>i < length [?r0, ?r1].
        map_of (out ! i) = (map_of ([?r0, ?r1] ! i))(''_links'' := None) \<and>
        map fst (out ! i) = filter (\<lambda>k. k \<noteq> ''_links'') (map fst ([?r0, ?r1] ! i)) \<and>
        (''_links'' \<notin> fst ` set ([?r0, ?r1] ! i) \<longrightarrow> out ! i = [?r0, ?r1] ! i)"
    by blast
  from l obtain a b where out: "out = [a, b]"
    by (cases out; cases "tl out") auto
  from f have "''_links'' \<notin> fst ` set ([?r0, ?r1] ! 1) \<longrightarrow> out ! 1 = [?r0, ?r1] ! 1"
    by simp
  then have b: "b = ?r1" using out by simp
  from f have "map fst (out ! 0) = filter (\<lambda>k. k \<noteq> ''_links'') (map fst ([?r0, ?r1] ! 0))"
    and "map_of (out ! 0) = (map_of ([?r0, ?r1] ! 0))(''_links'' := None)"
    by simp_all
  then have "map fst a = [''id'']" and "map_of a ''id'' = Some (JNum 1)"
    using out by (simp_all add: fun_eq_iff)
  then have a: "a = [(''id'', JNum 1)]"
    by (cases a) auto
  from c show ?thesis unfolding out a b by simp
qed

lemma cleaning_data_again:
  "cleaning_data products = Inr out \<Longrightarrow> cleaning_data out = Inr out"
proof (induction products arbitrary: out)
  case Nil
  then show ?case by simp
next
  case (Cons product products)
  then show ?case
    by (auto split: json.splits sum.splits)
qed

text \<open>
  Claim C8. The cleaner is idempotent. For every list of raw records (dicts) it returns
  a list, and cleaning that list returns it again; and whenever \<^verbatim>\<open>cleaning_data\<close>
  returns a list, cleaning this list returns the same list.
\<close>

theorem cleaning_data_idempotent:
  "(\<exists>out. cleaning_data (map JObj records) = Inr out \<and> cleaning_data out = Inr out) \<and>
   (cleaning_data products = Inr out' \<longrightarrow> cleaning_data out' = Inr out')"
  using cleaning_data_dicts [of records] cleaning_data_again by blast

theorem cleaning_data_idempotent_witness:
  "cleaning_data [JObj [(''_links'', JObj []), (''id'', JNum 1)], JObj [(''id'', JNum 2)]] =
     Inr [JObj [(''id'', JNum 1)], JObj [(''id'', JNum 2)]] \<and>
   cleaning_data [JObj [(''id'', JNum 1)], JObj [(''id'', JNum 2)]] =
     Inr [JObj [(''id'', JNum 1)], JObj [(''id'', JNum 2)]]"
proof -
  have h: "cleaning_data [JObj [(''_links'', JObj []), (''id'', JNum 1)], JObj [(''id'', JNum 2)]] =
     Inr [JObj [(''id'', JNum 1)], JObj [(''id'', JNum 2)]]"
    by simp
  from cleaning_data_idempotent
    [of _ "[JObj [(''_links'', JObj []), (''id'', JNum 1)], JObj [(''id'', JNum 2)]]"
        "[JObj [(''id'', JNum 1)], JObj [(''id'', JNum 2)]]"] h
  show ?thesis by blast
qed

section \<open>The fetch\<close>

lemma api_call_ok:
  "attempts e url params (retry_configuration (fst st)) 1 st = (Inr j, st1) \<Longrightarrow>
     api_call e url params st = (j, st1)"
  by (simp add: api_call_def)

lemma api_call_failed:
  "attempts e url params (retry_configuration (fst st)) 1 st = (Inl x, (self1, w1)) \<Longrightarrow>
     api_call e url params st = (JNull, (self1, w1\<lparr>logged := logged w1 @ [handler x]\<rparr>))"
  by (simp add: api_call_def)

lemma attempts_fatal:
  "attempt e url params n st = (Inl x, st1) \<Longrightarrow> \<not> retry_if_exception_type x \<Longrightarrow>
     attempts e url params rc n st = (Inl x, st1)"
  by (subst attempts.simps) simp

text \<open>
  The retry predicate accepts an \<^verbatim>\<open>HTTPError\<close> of any status and the \<^verbatim>\<open>JSONDecodeError\<close> of
  \<^verbatim>\<open>response.json()\<close>, so neither ever leaves the loop of attempts: what leaves it is an
  exception the predicate rejects, a \<^verbatim>\<open>RetryError\<close> among them.
\<close>

lemma HTTPError_retried: "retry_if_exception_type (HTTPError status)"
  by (simp add: retry_if_exception_type_def)

lemma JSONDecodeError_retried: "retry_if_exception_type JSONDecodeError"
  by (simp add: retry_if_exception_type_def)

lemma attempts_raises:
  "attempts e url params rc n st = (Inl x, st1) \<Longrightarrow> \<not> retry_if_exception_type x"
proof (induction e url params rc n st arbitrary: x st1 rule: attempts.induct)
  case (1 e url params rc n st)
  obtain r0 st0 where a: "attempt e url params n st = (r0, st0)"
    by (metis surj_pair)
  show ?case
  proof (cases "\<exists>y. r0 = Inl y \<and> retry_if_exception_type y \<and> \<not> stop_after_attempt rc n")
    case True
    then obtain y where y: "r0 = Inl y" "retry_if_exception_type y" "\<not> stop_after_attempt rc n"
      by blast
    then have "attempts e url params rc (Suc n) (sleep (wait_exponential rc n) st0) = (Inl x, st1)"
      using "1.prems" a by (subst (asm) attempts.simps) simp
    from "1.IH" [OF a [symmetric] y(1) _ y(3) this] y(2) show ?thesis
      by simp
  next
    case False
    then show ?thesis
      using "1.prems" a
      by (subst (asm) attempts.simps)
         (auto simp: retry_if_exception_type_def split: sum.splits if_splits)
  qed
qed

lemma HTTPError_handler_unreached:
  "attempts e url params rc n st = (Inl x, st1) \<Longrightarrow> x \<noteq> HTTPError status"
  using attempts_raises HTTPError_retried by blast

section \<open>The pagination loop\<close>

lemma page_view_next:
  "page_view j = Some (recs, Some u) \<Longrightarrow>
     \<exists>kvs emb lks nx. j = JObj kvs \<and> kvs \<noteq> [] \<and>
        map_of kvs ''_embedded'' = Some (JObj emb) \<and> map_of emb ''produits'' = Some (JArr recs) \<and>
        map_of kvs ''_links'' = Some (JObj lks) \<and> map_of lks ''next'' = Some (JObj nx) \<and>
        map_of nx ''href'' = Some u"
  by (cases j) (auto split: option.splits json.splits)

lemma page_view_last:
  "page_view j = Some (recs, None) \<Longrightarrow>
     \<exists>kvs emb lks. j = JObj kvs \<and> kvs \<noteq> [] \<and>
        map_of kvs ''_embedded'' = Some (JObj emb) \<and> map_of emb ''produits'' = Some (JArr recs) \<and>
        map_of kvs ''_links'' = Some (JObj lks) \<and> map_of lks ''next'' = None"
  by (cases j) (auto split: option.splits json.splits)

lemma load_loop_failed:
  assumes "api_call e (current_page_url (fst st)) None st = (j, (self1, w1))" and "\<not> truthy j"
  shows "load_loop e products st =
     Some (Inr None, (self1, w1\<lparr>logged := logged w1 @ [Failed_loading (current_page_url self1)]\<rparr>))"
  using assms by (subst load_loop.simps) simp

lemma load_loop_next:
  assumes "api_call e (current_page_url (fst st)) None st = (j, (self1, w1))"
    and "page_view j = Some (recs, Some u)"
  shows "load_loop e products st = load_loop e (products @ recs) (self1\<lparr>current_page_url := u\<rparr>, w1)"
proof -
  from page_view_next [OF assms(2)] obtain kvs emb lks nx where
    "j = JObj kvs" "kvs \<noteq> []" "map_of kvs ''_embedded'' = Some (JObj emb)"
    "map_of emb ''produits'' = Some (JArr recs)" "map_of kvs ''_links'' = Some (JObj lks)"
    "map_of lks ''next'' = Some (JObj nx)" "map_of nx ''href'' = Some u"
    by blast
  moreover from this have "''next'' \<in> fst ` set lks"
    by (metis map_of_eq_None_iff option.distinct(1))
  ultimately show ?thesis
    using assms(1) by (subst load_loop.simps) simp
qed

lemma load_loop_last:
  assumes "api_call e (current_page_url (fst st)) None st = (j, (self1, w1))"
    and "page_view j = Some (recs, None)"
  shows "load_loop e products st =
     Some (Inr (Some (products @ recs)),
           (close_sessions self1,
            w1\<lparr>logged := logged w1 @ [Loading_complete (length (products @ recs))]\<rparr>))"
proof -
  from page_view_last [OF assms(2)] obtain kvs emb lks where
    "j = JObj kvs" "kvs \<noteq> []" "map_of kvs ''_embedded'' = Some (JObj emb)"
    "map_of emb ''produits'' = Some (JArr recs)" "map_of kvs ''_links'' = Some (JObj lks)"
    "map_of lks ''next'' = None"
    by blast
  moreover from this have "''next'' \<notin> fst ` set lks"
    by (simp add: map_of_eq_None_iff)
  ultimately show ?thesis
    using assms(1) by (subst load_loop.simps) simp
qed

lemma two_pages_run:
  "load_data two_pages (default_service, fresh) =
     Some (Inr (Some [sample_product 1, sample_product 2, sample_product 3, sample_product 4]),
           (default_service\<lparr>sessions := [1, 1, 1], session := Some 1,
                             current_page_url := JStr second_url\<rparr>,
            \<lparr>requests = 2, slept = [],
             logged = [Attempt 1 (JStr first_url), Attempt 1 (JStr second_url),
                       Loading_complete 4]\<rparr>))"
proof -
  let ?st = "(default_service, fresh)"
  let ?self1 = "default_service\<lparr>session := Some 0\<rparr>"
  let ?w1 = "\<lparr>requests = 1, slept = [], logged = [Attempt 1 (JStr first_url)]\<rparr>"
  let ?st1 = "(?self1\<lparr>current_page_url := JStr second_url\<rparr>, ?w1)"
  let ?self2 = "default_service\<lparr>session := Some 1, current_page_url := JStr second_url\<rparr>"
  let ?w2 = "\<lparr>requests = 2, slept = [],
              logged = [Attempt 1 (JStr first_url), Attempt 1 (JStr second_url)]\<rparr>"
  have a1: "api_call two_pages (current_page_url (fst ?st)) None ?st =
      (page [sample_product 1, sample_product 2] (Some second_url), (?self1, ?w1))"
    by code_simp
  have v1: "page_view (page [sample_product 1, sample_product 2] (Some second_url)) =
      Some ([sample_product 1, sample_product 2], Some (JStr second_url))"
    by code_simp
  have a2: "api_call two_pages (current_page_url (fst ?st1)) None ?st1 =
      (page [sample_product 3, sample_product 4] None, (?self2, ?w2))"
    by code_simp
  have v2: "page_view (page [sample_product 3, sample_product 4] None) =
      Some ([sample_product 3, sample_product 4], None)"
    by code_simp
  have "load_data two_pages ?st = load_loop two_pages ([] @ [sample_product 1, sample_product 2]) ?st1"
    unfolding load_data_def using a1 v1 by (rule load_loop_next)
  also have "\<dots> = Some (Inr (Some (([] @ [sample_product 1, sample_product 2]) @
                                   [sample_product 3, sample_product 4])),
       (close_sessions ?self2,
        ?w2\<lparr>logged := logged ?w2 @
           [Loading_complete (length (([] @ [sample_product 1, sample_product 2]) @
                                   [sample_product 3, sample_product 4]))]\<rparr>))"
    using a2 v2 by (rule load_loop_last)
  finally show ?thesis
    by (simp add: close_sessions_def default_service_def)
qed

lemma load_loop_follow:
  "follow_pages e st pages = Some st1 \<Longrightarrow>
     load_loop e products st = load_loop e (products @ concat pages) st1"
proof (induction pages arbitrary: st products)
  case Nil
  then show ?case by simp
next
  case (Cons recs rest)
  obtain j self1 w1 where a: "api_call e (current_page_url (fst st)) None st = (j, (self1, w1))"
    by (metis surj_pair)
  with Cons.prems obtain u where
    v: "page_view j = Some (recs, Some u)" and
    f: "follow_pages e (self1\<lparr>current_page_url := u\<rparr>, w1) rest = Some st1"
    by (auto split: option.splits if_splits)
  have "load_loop e products st = load_loop e (products @ recs) (self1\<lparr>current_page_url := u\<rparr>, w1)"
    using a v by (rule load_loop_next)
  also have "\<dots> = load_loop e ((products @ recs) @ concat rest) st1"
    using f by (rule Cons.IH)
  finally show ?case by simp
qed

lemma length_concat_pages:
  "\<forall>p \<in> set pages. length p = k \<Longrightarrow> length (concat pages) = length pages * k"
  by (induction pages) simp_all

text \<open>
  Claim C2. When the run is served \<open>n\<close> pages of \<open>k\<close> records each, every page but
  the last naming the next one and the last naming none, \<^verbatim>\<open>load_data\<close> returns: its
  result is the list of all \<open>n * k\<close> records, the pages in the order they arrived and
  the records of each page in the order the page holds them.
\<close>

theorem load_data_all_pages:
  assumes "pages \<noteq> []"
    and "follow_pages e st (butlast pages) = Some st1"
    and "api_call e (current_page_url (fst st1)) None st1 = (j, (self2, w2))"
    and "page_view j = Some (last pages, None)"
    and "\<forall>p \<in> set pages. length p = k"
  shows "load_data e st =
      Some (Inr (Some (concat pages)),
            (close_sessions self2,
             w2\<lparr>logged := logged w2 @ [Loading_complete (length pages * k)]\<rparr>)) \<and>
    length (concat pages) = length pages * k"
proof -
  have n: "length (concat pages) = length pages * k"
    using assms(5) by (rule length_concat_pages)
  have c: "concat (butlast pages) @ last pages = concat pages"
    using assms(1) by (metis append_butlast_last_id concat.simps(1,2) concat_append append_Nil2)
  have "load_data e st = load_loop e ([] @ concat (butlast pages)) st1"
    unfolding load_data_def using assms(2) by (rule load_loop_follow)
  also have "\<dots> = Some (Inr (Some (([] @ concat (butlast pages)) @ last pages)),
            (close_sessions self2,
             w2\<lparr>logged := logged w2 @ [Loading_complete (length (([] @ concat (butlast pages)) @ last pages))]\<rparr>))"
    using assms(3,4) by (rule load_loop_last)
  finally show ?thesis
    using n c by simp
qed

theorem load_data_all_pages_witness:
  "load_data two_pages (default_service, fresh) =
     Some (Inr (Some [sample_product 1, sample_product 2, sample_product 3, sample_product 4]),
           (default_service\<lparr>sessions := [1, 1, 1], session := Some 1,
                             current_page_url := JStr second_url\<rparr>,
            \<lparr>requests = 2, slept = [],
             logged = [Attempt 1 (JStr first_url), Attempt 1 (JStr second_url),
                       Loading_complete 4]\<rparr>))"
proof -
  let ?pages = "[[sample_product 1, sample_product 2], [sample_product 3, sample_product 4]]"
  let ?st1 = "(default_service\<lparr>session := Some 0, current_page_url := JStr second_url\<rparr>,
               \<lparr>requests = 1, slept = [], logged = [Attempt 1 (JStr first_url)]\<rparr>)"
  let ?self2 = "default_service\<lparr>session := Some 1, current_page_url := JStr second_url\<rparr>"
  let ?w2 = "\<lparr>requests = 2, slept = [],
              logged = [Attempt 1 (JStr first_url), Attempt 1 (JStr second_url)]\<rparr>"
  have h1: "?pages \<noteq> []" by simp
  have h2: "follow_pages two_pages (default_service, fresh) (butlast ?pages) = Some ?st1"
    by code_simp
  have h3: "api_call two_pages (current_page_url (fst ?st1)) None ?st1 =
      (page [sample_product 3, sample_product 4] None, (?self2, ?w2))"
    by code_simp
  have h4: "page_view (page [sample_product 3, sample_product 4] None) = Some (last ?pages, None)"
    by code_simp
  have h5: "\<forall>p \<in> set ?pages. length p = 2" by simp
  from load_data_all_pages [OF h1 h2 h3 h4 h5] show ?thesis
    by (simp add: close_sessions_def default_service_def)
qed

text \<open>
  Claim C3. When the fetch of a page fails, its attempts ending with an exception (one
  the retry predicate rejects, or the \<^verbatim>\<open>RetryError\<close> of an exhausted budget), \<^verbatim>\<open>load_data\<close>
  returns \<^verbatim>\<open>None\<close> and no record, however many pages were fetched and accumulated
  before.
\<close>

theorem load_data_all_or_nothing:
  assumes "follow_pages e st pages = Some st1"
    and "attempts e (current_page_url (fst st1)) None (retry_configuration (fst st1)) 1 st1 =
           (Inl x, (self2, w2))"
  shows "load_data e st =
      Some (Inr None,
            (self2, w2\<lparr>logged := logged w2 @ [handler x, Failed_loading (current_page_url self2)]\<rparr>))"
proof -
  have "load_data e st = load_loop e ([] @ concat pages) st1"
    unfolding load_data_def using assms(1) by (rule load_loop_follow)
  also have "\<dots> = Some (Inr None,
            (self2, (w2\<lparr>logged := logged w2 @ [handler x]\<rparr>)
               \<lparr>logged := logged (w2\<lparr>logged := logged w2 @ [handler x]\<rparr>) @
                    [Failed_loading (current_page_url self2)]\<rparr>))"
    using api_call_failed [OF assms(2)] by (rule load_loop_failed) simp
  finally show ?thesis by simp
qed

theorem load_data_all_or_nothing_witness:
  "load_data page_then_down (default_service, fresh) =
     Some (Inr None,
           (default_service\<lparr>session := Some 0, current_page_url := JStr second_url\<rparr>,
            \<lparr>requests = 4, slept = [2, 2],
             logged = [Attempt 1 (JStr first_url), Attempt 1 (JStr second_url),
                       Attempt 2 (JStr second_url), Attempt 3 (JStr second_url),
                       Unexpected (RetryError ConnectionError),
                       Failed_loading (JStr second_url)]\<rparr>))"
proof -
  let ?st1 = "(default_service\<lparr>session := Some 0, current_page_url := JStr second_url\<rparr>,
               \<lparr>requests = 1, slept = [], logged = [Attempt 1 (JStr first_url)]\<rparr>)"
  let ?self2 = "default_service\<lparr>session := Some 0, current_page_url := JStr second_url\<rparr>"
  let ?w2 = "\<lparr>requests = 4, slept = [2, 2],
              logged = [Attempt 1 (JStr first_url), Attempt 1 (JStr second_url),
                        Attempt 2 (JStr second_url), Attempt 3 (JStr second_url)]\<rparr>"
  have h1: "follow_pages page_then_down (default_service, fresh) [[sample_product 1, sample_product 2]] = Some ?st1"
    by code_simp
  have h2: "attempts page_then_down (current_page_url (fst ?st1)) None
      (retry_configuration (fst ?st1)) 1 ?st1 = (Inl (RetryError ConnectionError), (?self2, ?w2))"
    by code_simp
  from load_data_all_or_nothing [OF h1 h2] show ?thesis
    by (simp add: default_service_def handler_def)
qed

text \<open>
  Claim C10. The loop checks no key of a response it received. When the fetch succeeded
  with a truthy dict that lacks \<^verbatim>\<open>"_embedded"\<close>, or whose \<^verbatim>\<open>"_embedded"\<close> lacks
  \<^verbatim>\<open>"produits"\<close>, or that lacks \<^verbatim>\<open>"_links"\<close>, the loop ends with the \<^verbatim>\<open>KeyError\<close> of
  that key, which nothing catches; when the JSON value received is falsy (an empty
  object, say), the loop returns \<^verbatim>\<open>None\<close> as it does for a failed fetch.
\<close>

theorem load_loop_missing_keys:
  assumes "attempts e (current_page_url (fst st)) None (retry_configuration (fst st)) 1 st =
      (Inr j, (self1, w1))"
  shows
    "(truthy j \<and> missing_key j ''_embedded'' \<longrightarrow>
        load_loop e products st = Some (Inl (KeyError ''_embedded''), (self1, w1))) \<and>
     (\<forall>emb. truthy j \<and> py_getitem j ''_embedded'' = Inr emb \<and> missing_key emb ''produits'' \<longrightarrow>
        load_loop e products st = Some (Inl (KeyError ''produits''), (self1, w1))) \<and>
     (\<forall>emb recs. truthy j \<and> py_getitem j ''_embedded'' = Inr emb \<and>
        py_getitem emb ''produits'' = Inr (JArr recs) \<and> missing_key j ''_links'' \<longrightarrow>
        load_loop e products st = Some (Inl (KeyError ''_links''), (self1, w1))) \<and>
     (\<not> truthy j \<longrightarrow>
        load_loop e products st =
          Some (Inr None,
                (self1, w1\<lparr>logged := logged w1 @ [Failed_loading (current_page_url self1)]\<rparr>)))"
proof (intro conjI allI impI)
  note a = api_call_ok [OF assms]
  {
    assume "truthy j \<and> missing_key j ''_embedded''"
    then show "load_loop e products st = Some (Inl (KeyError ''_embedded''), (self1, w1))"
      using a by (subst load_loop.simps) (cases j; simp)
  next
    fix emb
    assume "truthy j \<and> py_getitem j ''_embedded'' = Inr emb \<and> missing_key emb ''produits''"
    then show "load_loop e products st = Some (Inl (KeyError ''produits''), (self1, w1))"
      using a by (subst load_loop.simps) (cases emb; simp)
  next
    fix emb recs
    assume "truthy j \<and> py_getitem j ''_embedded'' = Inr emb \<and>
          py_getitem emb ''produits'' = Inr (JArr recs) \<and> missing_key j ''_links''"
    then show "load_loop e products st = Some (Inl (KeyError ''_links''), (self1, w1))"
      using a by (subst load_loop.simps) (cases j; simp)
  next
    assume "\<not> truthy j"
    with a show "load_loop e products st =
            Some (Inr None,
                  (self1, w1\<lparr>logged := logged w1 @ [Failed_loading (current_page_url self1)]\<rparr>))"
      by (rule load_loop_failed)
  }
qed

theorem load_loop_missing_keys_witness:
  "load_data (always (Response 200 (Parsed (JObj [(''message'', JStr ''ok'')])))) (default_service, fresh) =
     Some (Inl (KeyError ''_embedded''),
           (default_service\<lparr>session := Some 0\<rparr>,
            \<lparr>requests = 1, slept = [], logged = [Attempt 1 (JStr first_url)]\<rparr>)) \<and>
   load_data (always (Response 200 (Parsed (JObj [(''_embedded'', JObj [(''items'', JArr [])])]))))
       (default_service, fresh) =
     Some (Inl (KeyError ''produits''),
           (default_service\<lparr>session := Some 0\<rparr>,
            \<lparr>requests = 1, slept = [], logged = [Attempt 1 (JStr first_url)]\<rparr>)) \<and>
   load_data (always (Response 200 (Parsed (JObj [(''_embedded'', JObj [(''produits'', JArr [sample_product 1])])]))))
       (default_service, fresh) =
     Some (Inl (KeyError ''_links''),
           (default_service\<lparr>session := Some 0\<rparr>,
            \<lparr>requests = 1, slept = [], logged = [Attempt 1 (JStr first_url)]\<rparr>)) \<and>
   load_data (always (Response 200 (Parsed (JObj [])))) (default_service, fresh) =
     Some (Inr None,
           (default_service\<lparr>session := Some 0\<rparr>,
            \<lparr>requests = 1, slept = [],
             logged = [Attempt 1 (JStr first_url), Failed_loading (JStr first_url)]\<rparr>))"
proof -
  let ?st = "(default_service, fresh)"
  let ?self1 = "default_service\<lparr>session := Some 0\<rparr>"
  let ?w1 = "\<lparr>requests = 1, slept = [], logged = [Attempt 1 (JStr first_url)]\<rparr>"
  let ?j1 = "JObj [(''message'', JStr ''ok'')]"
  let ?j2 = "JObj [(''_embedded'', JObj [(''items'', JArr [])])]"
  let ?j3 = "JObj [(''_embedded'', JObj [(''produits'', JArr [sample_product 1])])]"
  let ?j4 = "JObj []"
  have a: "attempts (always (Response 200 (Parsed j))) (current_page_url (fst ?st)) None
      (retry_configuration (fst ?st)) 1 ?st = (Inr j, (?self1, ?w1))" for j
    by (subst attempts.simps)
       (simp add: attempt_def get_session_def always_def default_service_def fresh_def)
  have u: "current_page_url ?self1 = JStr first_url"
    by (simp add: default_service_def)
  from load_loop_missing_keys [OF a, of ?j1 "[]"]
  have 1: "load_data (always (Response 200 (Parsed ?j1))) ?st =
      Some (Inl (KeyError ''_embedded''), (?self1, ?w1))"
    by (simp add: load_data_def)
  from load_loop_missing_keys [OF a, of ?j2 "[]"]
  have 2: "load_data (always (Response 200 (Parsed ?j2))) ?st =
      Some (Inl (KeyError ''produits''), (?self1, ?w1))"
    by (simp add: load_data_def)
  from load_loop_missing_keys [OF a, of ?j3 "[]"]
  have 3: "load_data (always (Response 200 (Parsed ?j3))) ?st =
      Some (Inl (KeyError ''_links''), (?self1, ?w1))"
    by (simp add: load_data_def)
  from load_loop_missing_keys [OF a, of ?j4 "[]"]
  have 4: "load_data (always (Response 200 (Parsed ?j4))) ?st =
      Some (Inr None, (?self1, ?w1\<lparr>logged := logged ?w1 @ [Failed_loading (JStr first_url)]\<rparr>))"
    by (simp add: load_data_def u)
  from 1 2 3 4 show ?thesis by simp
qed

section \<open>Backoff delays\<close>

lemma attempt_slept:
  "attempt e url params n st = (r, st1) \<Longrightarrow> slept (snd st1) = slept (snd st)"
  by (auto simp: attempt_def Let_def split: prod.splits sum.splits reply.splits body.splits if_splits)

lemma attempt_sessions:
  "attempt e url params n st = (r, st0) \<Longrightarrow> sessions (fst st0) = sessions (fst st)"
  by (auto simp: attempt_def Let_def split: prod.splits sum.splits reply.splits body.splits if_splits)

lemma attempt_requests:
  "attempt e url params n st = (r, st0) \<Longrightarrow> sessions (fst st) \<noteq> [] \<Longrightarrow>
     requests (snd st0) = Suc (requests (snd st))"
  by (auto simp: attempt_def get_session_def Let_def
      split: prod.splits sum.splits reply.splits body.splits if_splits)

lemma attempt_retried_sessions:
  "attempt e url params n st = (Inl x, st0) \<Longrightarrow> retry_if_exception_type x \<Longrightarrow>
     sessions (fst st) \<noteq> []"
  by (auto simp: attempt_def get_session_def Let_def retry_if_exception_type_def
      split: prod.splits sum.splits reply.splits body.splits if_splits)

lemma sleep_fields:
  "slept (snd (sleep d st)) = slept (snd st) @ [d]"
  "requests (snd (sleep d st)) = requests (snd st)"
  "sessions (fst (sleep d st)) = sessions (fst st)"
  by (cases st; simp add: sleep_def)+

lemma attempts_run:
  "attempts e url params rc n st = (r, st1) \<Longrightarrow>
     \<exists>m. n \<le> m \<and> int m \<le> max (int n) (max_attempt_number rc) \<and>
         slept (snd st1) = slept (snd st) @ map (wait_exponential rc) [n..<m] \<and>
         (sessions (fst st) \<noteq> [] \<longrightarrow> requests (snd st1) = requests (snd st) + (m - n) + 1) \<and>
         (\<forall>k. n \<le> k \<and> k < m \<longrightarrow>
            (\<exists>stk. attempts e url params rc n st = attempts e url params rc (Suc k) stk \<and>
                 slept (snd stk) = slept (snd st) @ map (wait_exponential rc) [n..<Suc k] \<and>
                 requests (snd stk) = requests (snd st) + (Suc k - n)))"
proof (induction e url params rc n st arbitrary: r st1 rule: attempts.induct)
  case (1 e url params rc n st)
  obtain r0 st0 where a: "attempt e url params n st = (r0, st0)"
    by (metis surj_pair)
  have s0: "slept (snd st0) = slept (snd st)"
    using a by (rule attempt_slept)
  show ?case
  proof (cases "\<exists>x. r0 = Inl x \<and> retry_if_exception_type x \<and> \<not> stop_after_attempt rc n")
    case False
    then have "st1 = st0"
      using "1.prems" a by (subst (asm) attempts.simps) (auto split: sum.splits if_splits)
    then have "slept (snd st1) = slept (snd st) @ map (wait_exponential rc) [n..<n]"
      and "sessions (fst st) \<noteq> [] \<longrightarrow> requests (snd st1) = requests (snd st) + (n - n) + 1"
      using s0 attempt_requests [OF a] by simp_all
    moreover have "\<forall>k. n \<le> k \<and> k < n \<longrightarrow>
            (\<exists>stk. attempts e url params rc n st = attempts e url params rc (Suc k) stk \<and>
                 slept (snd stk) = slept (snd st) @ map (wait_exponential rc) [n..<Suc k] \<and>
                 requests (snd stk) = requests (snd st) + (Suc k - n))"
      by auto
    moreover have "n \<le> n \<and> int n \<le> max (int n) (max_attempt_number rc)"
      by simp
    ultimately have "n \<le> n \<and> int n \<le> max (int n) (max_attempt_number rc) \<and>
        slept (snd st1) = slept (snd st) @ map (wait_exponential rc) [n..<n] \<and>
        (sessions (fst st) \<noteq> [] \<longrightarrow> requests (snd st1) = requests (snd st) + (n - n) + 1) \<and>
        (\<forall>k. n \<le> k \<and> k < n \<longrightarrow>
            (\<exists>stk. attempts e url params rc n st = attempts e url params rc (Suc k) stk \<and>
                 slept (snd stk) = slept (snd st) @ map (wait_exponential rc) [n..<Suc k] \<and>
                 requests (snd stk) = requests (snd st) + (Suc k - n)))"
      by blast
    then show ?thesis by blast
  next
    case True
    then obtain x where x: "r0 = Inl x" "retry_if_exception_type x" "\<not> stop_after_attempt rc n"
      by blast
    let ?st' = "sleep (wait_exponential rc n) st0"
    have ne: "sessions (fst st) \<noteq> []"
      using a x(1,2) attempt_retried_sessions by blast
    have step: "attempts e url params rc n st = attempts e url params rc (Suc n) ?st'"
      using a x by (subst attempts.simps) simp
    then have run: "attempts e url params rc (Suc n) ?st' = (r, st1)"
      using "1.prems" by simp
    have sl: "slept (snd ?st') = slept (snd st) @ [wait_exponential rc n]"
      using s0 by (simp add: sleep_fields)
    have rq: "requests (snd ?st') = requests (snd st) + 1"
      using attempt_requests [OF a ne] by (simp add: sleep_fields)
    have ne': "sessions (fst ?st') \<noteq> []"
      using ne attempt_sessions [OF a] by (simp add: sleep_fields)
    from "1.IH" [OF a [symmetric] x(1) _ x(3) run] x(2)
    obtain m where m: "Suc n \<le> m" "int m \<le> max (int (Suc n)) (max_attempt_number rc)"
      "slept (snd st1) = slept (snd ?st') @ map (wait_exponential rc) [Suc n..<m]"
      "sessions (fst ?st') \<noteq> [] \<longrightarrow> requests (snd st1) = requests (snd ?st') + (m - Suc n) + 1"
      "\<forall>k. Suc n \<le> k \<and> k < m \<longrightarrow>
            (\<exists>stk. attempts e url params rc (Suc n) ?st' = attempts e url params rc (Suc k) stk \<and>
                 slept (snd stk) = slept (snd ?st') @ map (wait_exponential rc) [Suc n..<Suc k] \<and>
                 requests (snd stk) = requests (snd ?st') + (Suc k - Suc n))"
      by auto
    have 1: "n \<le> m" using m(1) by simp
    have 2: "int m \<le> max (int n) (max_attempt_number rc)"
      using m(2) x(3) by (simp add: stop_after_attempt_def)
    have 3: "slept (snd st1) = slept (snd st) @ map (wait_exponential rc) [n..<m]"
      using m(1,3) sl by (simp add: upt_conv_Cons)
    have 4: "sessions (fst st) \<noteq> [] \<longrightarrow> requests (snd st1) = requests (snd st) + (m - n) + 1"
      using m(1,4) ne' rq by auto
    have 5: "\<forall>k. n \<le> k \<and> k < m \<longrightarrow>
            (\<exists>stk. attempts e url params rc n st = attempts e url params rc (Suc k) stk \<and>
                 slept (snd stk) = slept (snd st) @ map (wait_exponential rc) [n..<Suc k] \<and>
                 requests (snd stk) = requests (snd st) + (Suc k - n))"
    proof (intro allI impI)
      fix k assume k: "n \<le> k \<and> k < m"
      show "\<exists>stk. attempts e url params rc n st = attempts e url params rc (Suc k) stk \<and>
                 slept (snd stk) = slept (snd st) @ map (wait_exponential rc) [n..<Suc k] \<and>
                 requests (snd stk) = requests (snd st) + (Suc k - n)"
      proof (cases "k = n")
        case True
        then show ?thesis
          using step sl rq by (intro exI [of _ ?st']) simp
      next
        case False
        with k have k': "Suc n \<le> k \<and> k < m" by simp
        with m(5) obtain stk where
          "attempts e url params rc (Suc n) ?st' = attempts e url params rc (Suc k) stk"
          "slept (snd stk) = slept (snd ?st') @ map (wait_exponential rc) [Suc n..<Suc k]"
          "requests (snd stk) = requests (snd ?st') + (Suc k - Suc n)"
          by blast
        then show ?thesis
          using step sl rq k' by (intro exI [of _ stk]) (auto simp: upt_conv_Cons)
      qed
    qed
    from 1 2 3 4 5 show ?thesis by blast
  qed
qed

lemma api_call_run:
  assumes "api_call e url params st = (j, st1)"
  shows "\<exists>m. 1 \<le> m \<and> int m \<le> max 1 (max_retry (fst st)) \<and>
     slept (snd st1) =
       slept (snd st) @ map (wait_exponential (retry_configuration (fst st))) [1..<m] \<and>
     (sessions (fst st) \<noteq> [] \<longrightarrow> requests (snd st1) = requests (snd st) + m) \<and>
     (\<forall>k. 1 \<le> k \<and> k < m \<longrightarrow>
        (\<exists>stk. attempts e url params (retry_configuration (fst st)) 1 st =
                attempts e url params (retry_configuration (fst st)) (Suc k) stk \<and>
             slept (snd stk) =
               slept (snd st) @ map (wait_exponential (retry_configuration (fst st))) [1..<Suc k] \<and>
             requests (snd stk) = requests (snd st) + k))"
proof -
  let ?rc = "retry_configuration (fst st)"
  obtain r st0 where a: "attempts e url params ?rc 1 st = (r, st0)"
    by (metis surj_pair)
  from attempts_run [OF a] obtain m where
    m: "1 \<le> m" "int m \<le> max (int 1) (max_attempt_number ?rc)"
    "slept (snd st0) = slept (snd st) @ map (wait_exponential ?rc) [1..<m]"
    "sessions (fst st) \<noteq> [] \<longrightarrow> requests (snd st0) = requests (snd st) + (m - 1) + 1"
    "\<forall>k. 1 \<le> k \<and> k < m \<longrightarrow>
        (\<exists>stk. attempts e url params ?rc 1 st = attempts e url params ?rc (Suc k) stk \<and>
             slept (snd stk) = slept (snd st) @ map (wait_exponential ?rc) [1..<Suc k] \<and>
             requests (snd stk) = requests (snd st) + (Suc k - 1))"
    by blast
  have same: "slept (snd st1) = slept (snd st0)" "requests (snd st1) = requests (snd st0)"
    using assms a by (cases st0; auto simp: api_call_def split: sum.splits)+
  have 1: "int m \<le> max 1 (max_retry (fst st))"
    using m(2) by (simp add: retry_configuration_def)
  have 2: "slept (snd st1) = slept (snd st) @ map (wait_exponential ?rc) [1..<m]"
    using m(3) same by simp
  have 3: "sessions (fst st) \<noteq> [] \<longrightarrow> requests (snd st1) = requests (snd st) + m"
    using m(1,4) same by auto
  have 4: "\<forall>k. 1 \<le> k \<and> k < m \<longrightarrow>
        (\<exists>stk. attempts e url params ?rc 1 st = attempts e url params ?rc (Suc k) stk \<and>
             slept (snd stk) = slept (snd st) @ map (wait_exponential ?rc) [1..<Suc k] \<and>
             requests (snd stk) = requests (snd st) + k)"
    using m(5) by simp
  from m(1) 1 2 3 4 show ?thesis by blast
qed

lemma wait_exponential_mono:
  "n \<le> m \<Longrightarrow> wait_exponential rc n \<le> wait_exponential rc m"
proof (cases "0 \<le> multiplier rc")
  case True
  assume "n \<le> m"
  then have "(2::int) ^ (n - 1) \<le> 2 ^ (m - 1)"
    by (simp add: power_increasing)
  then have "multiplier rc * 2 ^ (n - 1) \<le> multiplier rc * 2 ^ (m - 1)"
    using True by (rule mult_left_mono)
  then show ?thesis
    by (simp add: wait_exponential_def)
next
  case False
  then have "\<And>k. multiplier rc * 2 ^ k < 0"
    by (simp add: mult_neg_pos)
  then have "\<And>k. wait_exponential rc k = max 0 (wait_min rc)"
    by (simp add: wait_exponential_def) (smt (verit))
  then show ?thesis by simp
qed

lemma wait_exponential_lower: "wait_min rc \<le> wait_exponential rc n"
  by (simp add: wait_exponential_def)

lemma wait_exponential_upper:
  "max 0 (wait_min rc) \<le> wait_max rc \<Longrightarrow> wait_exponential rc n \<le> wait_max rc"
  by (simp add: wait_exponential_def)

lemma sorted_waits: "sorted (map (wait_exponential rc) [n..<m])"
proof -
  have "sorted_wrt (\<lambda>a b. a \<le> b) [n..<m]"
    using sorted_upt [of n m] by simp
  then have "sorted_wrt (\<lambda>a b. wait_exponential rc a \<le> wait_exponential rc b) [n..<m]"
    by (rule sorted_wrt_mono_rel [rotated]) (simp add: wait_exponential_mono)
  then show ?thesis by (simp add: sorted_map)
qed

lemma wait_exponential_sleepable:
  "\<bar>wait_min rc\<bar> \<le> sleep_limit \<Longrightarrow> \<bar>wait_max rc\<bar> \<le> sleep_limit \<Longrightarrow>
     0 \<le> wait_exponential rc n \<and> wait_exponential rc n \<le> sleep_limit"
  by (auto simp: wait_exponential_def sleep_limit_def)

text \<open>
  Claim C4, as the code has it, for every configuration whose \<^verbatim>\<open>min_retry_time\<close> and
  \<^verbatim>\<open>max_retry_time\<close> are within \<open>sleep_limit\<close>. One \<^verbatim>\<open>_api_call\<close> sleeps fewer delays than
  \<^verbatim>\<open>max_retry\<close> (none when \<^verbatim>\<open>max_retry\<close> is below 2) and, its pool not being empty,
  sends one request more than it sleeps delays. For \<open>n\<close> from 1, the delay after attempt
  \<open>n\<close> is
  \<^verbatim>\<open>max(max(0, min_retry_time), min(retry_time_multiplier * 2 ** (n - 1), max_retry_time))\<close>,
  and it is slept before attempt \<open>n + 1\<close>: the call continues as the attempts from \<open>n + 1\<close>
  on, in a state where \<open>n\<close> requests have been sent and the first \<open>n\<close> delays slept. The
  delays never decrease, none is below \<^verbatim>\<open>min_retry_time\<close>, none exceeds \<^verbatim>\<open>max_retry_time\<close>
  when \<^verbatim>\<open>max(0, min_retry_time) <= max_retry_time\<close>, and each is one \<^verbatim>\<open>time.sleep\<close> takes.
\<close>

theorem api_call_delays:
  assumes "api_call e url params st = (j, st1)"
    and "\<bar>min_retry_time (fst st)\<bar> \<le> sleep_limit"
    and "\<bar>max_retry_time (fst st)\<bar> \<le> sleep_limit"
  shows "\<exists>ds. slept (snd st1) = slept (snd st) @ ds \<and>
      int (length ds) < max 1 (max_retry (fst st)) \<and>
      (sessions (fst st) \<noteq> [] \<longrightarrow> requests (snd st1) = requests (snd st) + length ds + 1) \<and>
      (\<forall>n. 1 \<le> n \<and> n \<le> length ds \<longrightarrow>
         ds ! (n - 1) =
           max (max 0 (min_retry_time (fst st)))
               (min (retry_time_multiplier (fst st) * 2 ^ (n - 1)) (max_retry_time (fst st))) \<and>
         (\<exists>stn. attempts e url params (retry_configuration (fst st)) 1 st =
                 attempts e url params (retry_configuration (fst st)) (Suc n) stn \<and>
              slept (snd stn) = slept (snd st) @ take n ds \<and>
              requests (snd stn) = requests (snd st) + n)) \<and>
      sorted ds \<and>
      (\<forall>d \<in> set ds. min_retry_time (fst st) \<le> d) \<and>
      (max 0 (min_retry_time (fst st)) \<le> max_retry_time (fst st) \<longrightarrow>
         (\<forall>d \<in> set ds. d \<le> max_retry_time (fst st))) \<and>
      (\<forall>d \<in> set ds. 0 \<le> d \<and> d \<le> sleep_limit)"
proof -
  let ?rc = "retry_configuration (fst st)"
  from api_call_run [OF assms(1)] obtain m where
    m: "1 \<le> m" "int m \<le> max 1 (max_retry (fst st))"
    "slept (snd st1) = slept (snd st) @ map (wait_exponential ?rc) [1..<m]"
    "sessions (fst st) \<noteq> [] \<longrightarrow> requests (snd st1) = requests (snd st) + m"
    "\<forall>k. 1 \<le> k \<and> k < m \<longrightarrow>
        (\<exists>stk. attempts e url params ?rc 1 st = attempts e url params ?rc (Suc k) stk \<and>
             slept (snd stk) = slept (snd st) @ map (wait_exponential ?rc) [1..<Suc k] \<and>
             requests (snd stk) = requests (snd st) + k)"
    by blast
  let ?ds = "map (wait_exponential ?rc) [1..<m]"
  have len: "length ?ds = m - 1" by simp
  have 1: "int (length ?ds) < max 1 (max_retry (fst st))"
    using m(1,2) by simp
  have 2: "sessions (fst st) \<noteq> [] \<longrightarrow> requests (snd st1) = requests (snd st) + length ?ds + 1"
    using m(1,4) by simp
  have 3: "\<forall>n. 1 \<le> n \<and> n \<le> length ?ds \<longrightarrow>
         ?ds ! (n - 1) =
           max (max 0 (min_retry_time (fst st)))
               (min (retry_time_multiplier (fst st) * 2 ^ (n - 1)) (max_retry_time (fst st))) \<and>
         (\<exists>stn. attempts e url params ?rc 1 st = attempts e url params ?rc (Suc n) stn \<and>
              slept (snd stn) = slept (snd st) @ take n ?ds \<and>
              requests (snd stn) = requests (snd st) + n)"
  proof (intro allI impI)
    fix n assume n: "1 \<le> n \<and> n \<le> length ?ds"
    then have nm: "1 \<le> n \<and> n < m" by auto
    have f: "?ds ! (n - 1) =
           max (max 0 (min_retry_time (fst st)))
               (min (retry_time_multiplier (fst st) * 2 ^ (n - 1)) (max_retry_time (fst st)))"
      using n by (auto simp: wait_exponential_def retry_configuration_def)
    have t: "take n ?ds = map (wait_exponential ?rc) [1..<Suc n]"
      using nm by (simp add: take_map take_upt)
    from m(5) nm obtain stn where
      "attempts e url params ?rc 1 st = attempts e url params ?rc (Suc n) stn"
      "slept (snd stn) = slept (snd st) @ map (wait_exponential ?rc) [1..<Suc n]"
      "requests (snd stn) = requests (snd st) + n"
      by blast
    with t have "\<exists>stn. attempts e url params ?rc 1 st = attempts e url params ?rc (Suc n) stn \<and>
              slept (snd stn) = slept (snd st) @ take n ?ds \<and>
              requests (snd stn) = requests (snd st) + n"
      by (intro exI [of _ stn]) simp
    with f show "?ds ! (n - 1) =
           max (max 0 (min_retry_time (fst st)))
               (min (retry_time_multiplier (fst st) * 2 ^ (n - 1)) (max_retry_time (fst st))) \<and>
         (\<exists>stn. attempts e url params ?rc 1 st = attempts e url params ?rc (Suc n) stn \<and>
              slept (snd stn) = slept (snd st) @ take n ?ds \<and>
              requests (snd stn) = requests (snd st) + n)"
      by blast
  qed
  have 4: "sorted ?ds"
    by (rule sorted_waits)
  have 5: "\<forall>d \<in> set ?ds. min_retry_time (fst st) \<le> d"
    using wait_exponential_lower [of ?rc] by (auto simp: retry_configuration_def)
  have 6: "max 0 (min_retry_time (fst st)) \<le> max_retry_time (fst st) \<longrightarrow>
         (\<forall>d \<in> set ?ds. d \<le> max_retry_time (fst st))"
    using wait_exponential_upper [of ?rc] by (auto simp: retry_configuration_def)
  have 7: "\<forall>d \<in> set ?ds. 0 \<le> d \<and> d \<le> sleep_limit"
    using wait_exponential_sleepable [of ?rc] assms(2,3) by (auto simp: retry_configuration_def)
  from m(3) 1 2 3 4 5 6 7 show ?thesis by blast
qed

theorem api_call_delays_witness:
  "slept (snd (snd (api_call (always (Raises ConnectionError)) (JStr first_url) None
      (default_client\<lparr>max_retry := 4\<rparr>, fresh)))) = [2, 2, 4] \<and>
   sorted (slept (snd (snd (api_call (always (Raises ConnectionError)) (JStr first_url) None
      (default_client\<lparr>max_retry := 4\<rparr>, fresh))))) \<and>
   requests (snd (snd (api_call (always (Raises ConnectionError)) (JStr first_url) None
      (default_client\<lparr>max_retry := 4\<rparr>, fresh)))) =
     length (slept (snd (snd (api_call (always (Raises ConnectionError)) (JStr first_url) None
      (default_client\<lparr>max_retry := 4\<rparr>, fresh))))) + 1"
proof -
  let ?st = "(default_client\<lparr>max_retry := 4\<rparr>, fresh)"
  let ?st1 = "(default_client\<lparr>max_retry := 4, session := Some 0\<rparr>,
      \<lparr>requests = 4, slept = [2, 2, 4],
       logged = [Attempt 1 (JStr first_url), Attempt 2 (JStr first_url),
                 Attempt 3 (JStr first_url), Attempt 4 (JStr first_url),
                 Unexpected (RetryError ConnectionError)]\<rparr>)"
  have h: "api_call (always (Raises ConnectionError)) (JStr first_url) None ?st = (JNull, ?st1)"
    by code_simp
  have b1: "\<bar>min_retry_time (fst ?st)\<bar> \<le> sleep_limit"
    by (simp add: default_client_def sleep_limit_def)
  have b2: "\<bar>max_retry_time (fst ?st)\<bar> \<le> sleep_limit"
    by (simp add: default_client_def sleep_limit_def)
  have ne: "sessions (fst ?st) \<noteq> []"
    by (simp add: default_client_def)
  from api_call_delays [OF h b1 b2] ne obtain ds where
    "slept (snd ?st1) = slept (snd ?st) @ ds" "sorted ds"
    "requests (snd ?st1) = requests (snd ?st) + length ds + 1"
    by blast
  then have "sorted (slept (snd ?st1))"
    and "requests (snd ?st1) = length (slept (snd ?st1)) + 1"
    by (simp_all add: fresh_def)
  then show ?thesis
    unfolding h by simp
qed

text \<open>
  The specification's formula \<^verbatim>\<open>clamp(min_delay * multiplier ^ n, min_delay, max_delay)\<close>
  is not the delay of the code: with the default delays and four attempts, the code sleeps
  4 before the fourth attempt, the formula gives 2. And with a minimum of 5 above a
  maximum of 3 the code sleeps 5.
\<close>

theorem api_call_delays_counterexample:
  "slept (snd (snd (api_call (always (Raises ConnectionError)) (JStr first_url) None
      (default_client\<lparr>max_retry := 4\<rparr>, fresh)))) ! 2 = 4 \<and>
   spec_delay (min_retry_time default_client) (max_retry_time default_client)
      (retry_time_multiplier default_client) 3 = 2 \<and>
   slept (snd (snd (api_call (always (Raises ConnectionError)) (JStr first_url) None
      (default_client\<lparr>max_retry := 4\<rparr>, fresh)))) ! 2 \<noteq>
     spec_delay (min_retry_time default_client) (max_retry_time default_client)
      (retry_time_multiplier default_client) 3 \<and>
   slept (snd (snd (api_call (always (Raises ConnectionError)) (JStr first_url) None
      (default_client\<lparr>min_retry_time := 5, max_retry_time := 3\<rparr>, fresh)))) = [5, 5] \<and>
   max_retry_time (default_client\<lparr>min_retry_time := 5, max_retry_time := 3\<rparr>) <
     slept (snd (snd (api_call (always (Raises ConnectionError)) (JStr first_url) None
      (default_client\<lparr>min_retry_time := 5, max_retry_time := 3\<rparr>, fresh)))) ! 0"
  by code_simp

section \<open>Where the code departs from the specification\<close>

text \<open>
  Claim C1, at a status 404. \<^verbatim>\<open>raise_for_status\<close> raises \<^verbatim>\<open>HTTPError\<close>, a
  \<^verbatim>\<open>RequestException\<close>, for 404 as for 429, and the retry predicate accepts every
  \<^verbatim>\<open>RequestException\<close>: with the default three attempts, a URL that always answers 404 is
  requested three times, with the two delays in between, exactly as one that always
  answers 429. The \<^verbatim>\<open>except requests.HTTPError\<close> clause is never reached: what leaves the
  loop is the \<^verbatim>\<open>RetryError\<close>.
\<close>

theorem api_call_retries_404:
  "api_call (always (Response 404 (Parsed (JObj [(''error'', JStr ''Not Found'')]))))
       (JStr first_url) None (default_client, fresh) =
     (JNull,
      (default_client\<lparr>session := Some 2\<rparr>,
       \<lparr>requests = 3, slept = [2, 2],
        logged = [Attempt 1 (JStr first_url), Attempt 2 (JStr first_url),
                  Attempt 3 (JStr first_url), Unexpected (RetryError (HTTPError 404))]\<rparr>)) \<and>
   api_call (always (Response 429 (Parsed (JObj [(''error'', JStr ''Too Many Requests'')]))))
       (JStr first_url) None (default_client, fresh) =
     (JNull,
      (default_client\<lparr>session := Some 2\<rparr>,
       \<lparr>requests = 3, slept = [2, 2],
        logged = [Attempt 1 (JStr first_url), Attempt 2 (JStr first_url),
                  Attempt 3 (JStr first_url), Unexpected (RetryError (HTTPError 429))]\<rparr>))"
  by code_simp

text \<open>
  Claim C5, at a response 200 whose body is not JSON. The exception of
  \<^verbatim>\<open>response.json()\<close> is a \<^verbatim>\<open>RequestException\<close> too, so the attempt is repeated until the
  budget is spent, and the line logged is the one of a \<^verbatim>\<open>RetryError\<close>, as for a
  connection that fails every time. Only a \<^verbatim>\<open>ValueError\<close> that is no \<^verbatim>\<open>RequestException\<close>
  ends the fetch at once and reaches the \<^verbatim>\<open>except ValueError\<close> clause.
\<close>

theorem api_call_retries_invalid_json:
  "api_call (always (Response 200 Unparsable)) (JStr first_url) None (default_client, fresh) =
     (JNull,
      (default_client\<lparr>session := Some 2\<rparr>,
       \<lparr>requests = 3, slept = [2, 2],
        logged = [Attempt 1 (JStr first_url), Attempt 2 (JStr first_url),
                  Attempt 3 (JStr first_url), Unexpected (RetryError JSONDecodeError)]\<rparr>)) \<and>
   api_call (always (Raises ConnectionError)) (JStr first_url) None (default_client, fresh) =
     (JNull,
      (default_client\<lparr>session := Some 2\<rparr>,
       \<lparr>requests = 3, slept = [2, 2],
        logged = [Attempt 1 (JStr first_url), Attempt 2 (JStr first_url),
                  Attempt 3 (JStr first_url), Unexpected (RetryError ConnectionError)]\<rparr>))"
  by code_simp

lemma api_call_plain_ValueError:
  "api_call (always (Raises (ValueError ''Expecting value''))) (JStr first_url) None (default_client, fresh) =
     (JNull,
      (default_client\<lparr>session := Some 0\<rparr>,
       \<lparr>requests = 1, slept = [],
        logged = [Attempt 1 (JStr first_url), Invalid_JSON]\<rparr>))"
  by code_simp

text \<open>
  Claim C6, at a run whose first fetch fails. \<^verbatim>\<open>load_data\<close> calls \<^verbatim>\<open>_close_sessions\<close>
  before the \<^verbatim>\<open>break\<close> of the last page only: on the \<^verbatim>\<open>return None\<close> of a failed fetch
  no session has been closed, where the run over two pages has closed each session once.
\<close>

theorem load_data_failure_leaves_sessions_open:
  "load_data (always (Raises ConnectionError)) (default_service, fresh) =
     Some (Inr None,
           (default_service\<lparr>session := Some 2\<rparr>,
            \<lparr>requests = 3, slept = [2, 2],
             logged = [Attempt 1 (JStr first_url), Attempt 2 (JStr first_url),
                       Attempt 3 (JStr first_url), Unexpected (RetryError ConnectionError),
                       Failed_loading (JStr first_url)]\<rparr>)) \<and>
   sessions (default_service\<lparr>session := Some 2\<rparr>) = [0, 0, 0] \<and>
   map_option (\<lambda>(r, self, w). sessions self) (load_data two_pages (default_service, fresh)) =
     Some [1, 1, 1]"
proof -
  let ?st = "(default_service, fresh)"
  let ?w1 = "\<lparr>requests = 3, slept = [2, 2],
        logged = [Attempt 1 (JStr first_url), Attempt 2 (JStr first_url),
                  Attempt 3 (JStr first_url), Unexpected (RetryError ConnectionError)]\<rparr>"
  have a: "api_call (always (Raises ConnectionError)) (current_page_url (fst ?st)) None ?st =
     (JNull, (default_service\<lparr>session := Some 2\<rparr>, ?w1))"
    by code_simp
  have "\<not> truthy JNull" by simp
  with a have "load_loop (always (Raises ConnectionError)) [] ?st = Some (Inr None,
     (default_service\<lparr>session := Some 2\<rparr>,
      ?w1\<lparr>logged := logged ?w1 @
          [Failed_loading (current_page_url (default_service\<lparr>session := Some 2\<rparr>))]\<rparr>))"
    by (rule load_loop_failed)
  then have 1: "load_data (always (Raises ConnectionError)) ?st =
     Some (Inr None,
           (default_service\<lparr>session := Some 2\<rparr>,
            \<lparr>requests = 3, slept = [2, 2],
             logged = [Attempt 1 (JStr first_url), Attempt 2 (JStr first_url),
                       Attempt 3 (JStr first_url), Unexpected (RetryError ConnectionError),
                       Failed_loading (JStr first_url)]\<rparr>))"
    by (simp add: load_data_def default_service_def)
  have 2: "sessions (default_service\<lparr>session := Some 2\<rparr>) = [0, 0, 0]"
    by (simp add: default_service_def)
  have 3: "map_option (\<lambda>(r, self, w). sessions self) (load_data two_pages ?st) = Some [1, 1, 1]"
    by (simp add: two_pages_run)
  from 1 2 3 show ?thesis by blast
qed

end
